theory Spec2Isabelle
  imports Complex_Main "HOL-Library.Word"
begin

unbundle bit_operations_syntax

section \<open>Bytes and the TCP byte stream\<close>

type_synonym byte = "8 word"
type_synonym bytes = "byte list"
type_synonym u32 = "32 word"

text \<open>
  The receiving end of a connected, blocking TCP socket. The state is the list of the
  pieces in which the peer's bytes are still going to arrive, followed by the end of the
  stream (the peer has closed). \<open>client.recv(n)\<close> returns at most \<open>n\<close> bytes of the next
  piece and leaves the rest of it for the next call; on a closed stream it returns
  \<open>b''\<close>. An empty piece carries nothing and is skipped.
\<close>

type_synonym socket = "bytes list"

fun recv :: "nat \<Rightarrow> socket \<Rightarrow> bytes \<times> socket" where
  "recv n [] = ([], [])"
| "recv n (c # cs) =
     (if c = [] then recv n cs
      else if length c \<le> n then (c, cs)
      else (take n c, drop n c # cs))"

section \<open>Frame header codec\<close>

text \<open>
  One big-endian unsigned 32-bit field of \<open>struct.unpack('!II', header)\<close>: the bytes are
  folded from the most significant one.
\<close>

definition unpack_u32 :: "bytes \<Rightarrow> u32" where
  "unpack_u32 bs = foldl (\<lambda>acc b. push_bit 8 acc OR ucast b) 0 bs"

text \<open>
  \<open>cam_id, frame_size = struct.unpack('!II', header)\<close> (xeon_stream.py, line 28). The
  source calls it on exactly eight bytes only, after the length check of line 24.
\<close>

definition unpack_II :: "bytes \<Rightarrow> u32 \<times> u32" where
  "unpack_II header = (unpack_u32 (take 4 header), unpack_u32 (drop 4 header))"

text \<open>
  The decoding half of the codec as \<open>receive_frame\<close> performs it (lines 22 to 28): a
  header of any other length than eight bytes is refused.
\<close>

definition decodeHeader :: "bytes \<Rightarrow> (u32 \<times> u32) option" where
  "decodeHeader header = (if length header \<noteq> 8 then None else Some (unpack_II header))"

text \<open>
  Modelled from the spec: the sending side of the frame stream (the capture node's
  streaming script, which would call \<open>struct.pack('!II', cam_id, len(data))\<close>) is not among
  the sources. The spec's contract is \<open>encodeHeader(cameraId, payloadLength) -> 8 bytes\<close>,
  both fields unsigned 32-bit in network byte order.
\<close>

definition pack_u32 :: "u32 \<Rightarrow> bytes" where
  "pack_u32 w = [ucast (drop_bit 24 w), ucast (drop_bit 16 w), ucast (drop_bit 8 w), ucast w]"

definition encodeHeader :: "u32 \<Rightarrow> u32 \<Rightarrow> bytes" where
  "encodeHeader cameraId payloadLength = pack_u32 cameraId @ pack_u32 payloadLength"

section \<open>Frame ingestion: \<open>receive_frame\<close> and the main loop of xeon_stream.py\<close>

definition BUFFER_SIZE :: nat where
  "BUFFER_SIZE = 4096"

text \<open>
  The payload loop of \<open>receive_frame\<close> (lines 32 to 40), with the loop variables
  \<open>frame_data\<close> and \<open>bytes_received\<close>. A zero-length chunk is the early
  \<open>return None, None\<close>; the socket is returned in every case, since the caller goes on
  reading from it.
\<close>

function recv_frame_data :: "nat \<Rightarrow> bytes \<Rightarrow> nat \<Rightarrow> socket \<Rightarrow> bytes option \<times> socket" where
  "recv_frame_data frame_size frame_data bytes_received client =
     (if bytes_received < frame_size then
        (case recv (min BUFFER_SIZE (frame_size - bytes_received)) client of
           (chunk, client') \<Rightarrow>
             if chunk = [] then (None, client')
             else recv_frame_data frame_size (frame_data @ chunk)
                    (bytes_received + length chunk) client')
      else (Some frame_data, client))"
  by pat_completeness auto
termination
  by (relation "measure (\<lambda>(frame_size, frame_data, bytes_received, client).
                  frame_size - bytes_received)") (auto simp: neq_Nil_conv)

text \<open>
  \<open>receive_frame(client)\<close>. The JPEG decoder \<open>cv2.imdecode\<close> is a parameter; \<open>None\<close> is
  its failure. The Python result \<open>(None, None)\<close> is \<open>None\<close> here, and \<open>(cam_id, frame)\<close>
  is \<open>Some (cam_id, frame)\<close>. The function is the same, line for line, in
  xeon_stream.py, xeon_stream_depth.py, server_stream_cal_1.py and
  server_stream_simple.py.
\<close>

definition receive_frame ::
  "(bytes \<Rightarrow> 'img option) \<Rightarrow> socket \<Rightarrow> (nat \<times> 'img) option \<times> socket" where
  "receive_frame imdecode client =
     (case recv 8 client of
        (header, client1) \<Rightarrow>
          if length header \<noteq> 8 then (None, client1)
          else (case unpack_II header of
            (cam_id, frame_size) \<Rightarrow>
              (case recv_frame_data (unat frame_size) [] 0 client1 of
                 (None, client2) \<Rightarrow> (None, client2)
               | (Some frame_data, client2) \<Rightarrow>
                   (case imdecode frame_data of
                      None \<Rightarrow> (None, client2)
                    | Some frame \<Rightarrow> (Some (unat cam_id, frame), client2)))))"

text \<open>
  \<open>cv2.waitKey(1)\<close>: the key codes the operator is going to produce, one for each call;
  \<open>-1\<close> (no key) once they are used up.
\<close>

fun waitKey :: "int list \<Rightarrow> int \<times> int list" where
  "waitKey [] = (-1, [])"
| "waitKey (k # keys) = (k, keys)"

text \<open>
  The receiving loop of \<open>main\<close> in xeon_stream.py (lines 76 to 98). It is a
  \<open>while True\<close>, so it is run on fuel: \<open>None\<close> means that the loop is still running when
  the fuel is used up, \<open>Some\<close> that it has left through the \<open>break\<close> of line 98. The
  windows shown by \<open>cv2.imshow\<close> are collected in \<open>shown\<close>; the staleness check of lines
  92 to 94 only logs. \<open>canny\<close> is \<open>apply_edge_detection\<close>.
\<close>

fun main_loop ::
  "(bytes \<Rightarrow> 'img option) \<Rightarrow> ('img \<Rightarrow> 'edges) \<Rightarrow> nat \<Rightarrow> socket \<Rightarrow> int list \<Rightarrow>
   (nat \<times> 'edges) list \<Rightarrow> ((nat \<times> 'edges) list \<times> socket) option" where
  "main_loop imdecode canny 0 client keys shown = None"
| "main_loop imdecode canny (Suc fuel) client keys shown =
     (case receive_frame imdecode client of
        (None, client') \<Rightarrow> main_loop imdecode canny fuel client' keys shown
      | (Some (cam_id, frame), client') \<Rightarrow>
          (case waitKey keys of
             (k, keys') \<Rightarrow>
               if k AND 255 = 113 then Some (shown @ [(cam_id, canny frame)], client')
               else main_loop imdecode canny fuel client' keys'
                      (shown @ [(cam_id, canny frame)])))"

declare recv_frame_data.simps [simp del]

section \<open>The handshake server (xeon_handshake.py) and its client (pi_handshake.py)\<close>

text \<open>
  What \<open>json.loads\<close> returns: Python values. A JSON object is a \<open>dict\<close>, here the list
  of its items with \<open>map_of\<close> as the lookup; a JSON array is a \<open>list\<close>; a number
  without fraction or exponent is an \<open>int\<close>, any other number a \<open>float\<close>. The
  handshake does no arithmetic on floats: it compares them with integer constants and
  copies them, so a float is represented by the real number it denotes.
\<close>

datatype pyval =
    PNone
  | PBool bool
  | PInt int
  | PFloat real
  | PStr string
  | PList "pyval list"
  | PDict "(string \<times> pyval) list"

datatype py_error = TypeError | KeyError | OverflowError | ValueError

text \<open>
  Python's \<open>v == k\<close> for an integer constant \<open>k\<close>: numbers are compared by value
  (\<open>True == 1\<close>, \<open>1.0 == 1\<close>), anything else is unequal to an integer.
\<close>

fun py_eq_int :: "pyval \<Rightarrow> int \<Rightarrow> bool" where
  "py_eq_int (PInt i) k = (i = k)"
| "py_eq_int (PBool b) k = ((if b then 1 else 0) = k)"
| "py_eq_int (PFloat r) k = (r = of_int k)"
| "py_eq_int PNone k = False"
| "py_eq_int (PStr s) k = False"
| "py_eq_int (PList xs) k = False"
| "py_eq_int (PDict kvs) k = False"

text \<open>
  \<open>v == ks\<close> for a constant list of integers \<open>ks\<close>: a list of the same length with
  equal elements at each position, in the same order.
\<close>

fun py_eq_int_list :: "pyval \<Rightarrow> int list \<Rightarrow> bool" where
  "py_eq_int_list (PList xs) ks = list_all2 py_eq_int xs ks"
| "py_eq_int_list PNone ks = False"
| "py_eq_int_list (PBool b) ks = False"
| "py_eq_int_list (PInt i) ks = False"
| "py_eq_int_list (PFloat r) ks = False"
| "py_eq_int_list (PStr s) ks = False"
| "py_eq_int_list (PDict kvs) ks = False"

fun is_substring :: "string \<Rightarrow> string \<Rightarrow> bool" where
  "is_substring key [] = (key = [])"
| "is_substring key (c # s) = (if take (length key) (c # s) = key then True else is_substring key s)"

text \<open>
  \<open>key in payload\<close> for a string \<open>key\<close>: a key of a dict, an element of a list, a
  substring of a string; any other value is not iterable and raises \<open>TypeError\<close>.
\<close>

fun py_in :: "string \<Rightarrow> pyval \<Rightarrow> py_error + bool" where
  "py_in key (PDict kvs) = Inr (map_of kvs key \<noteq> None)"
| "py_in key (PList xs) = Inr (List.member xs (PStr key))"
| "py_in key (PStr s) = Inr (is_substring key s)"
| "py_in key PNone = Inl TypeError"
| "py_in key (PBool b) = Inl TypeError"
| "py_in key (PInt i) = Inl TypeError"
| "py_in key (PFloat r) = Inl TypeError"

text \<open>
  \<open>all(key in payload for key in keys)\<close>, stopping at the first key that is missing.
  The source iterates over a set; the result does not depend on the order, since whether
  \<open>in\<close> raises depends on the payload alone.
\<close>

fun all_in :: "string list \<Rightarrow> pyval \<Rightarrow> py_error + bool" where
  "all_in [] payload = Inr True"
| "all_in (key # keys) payload =
     (case py_in key payload of
        Inl e \<Rightarrow> Inl e
      | Inr present \<Rightarrow> if present then all_in keys payload else Inr False)"

text \<open>
  \<open>payload[key]\<close> for a string \<open>key\<close>: only a dict can be indexed by a string.
\<close>

fun py_getitem :: "pyval \<Rightarrow> string \<Rightarrow> py_error + pyval" where
  "py_getitem (PDict kvs) key = (case map_of kvs key of None \<Rightarrow> Inl KeyError | Some v \<Rightarrow> Inr v)"
| "py_getitem PNone key = Inl TypeError"
| "py_getitem (PBool b) key = Inl TypeError"
| "py_getitem (PInt i) key = Inl TypeError"
| "py_getitem (PFloat r) key = Inl TypeError"
| "py_getitem (PStr s) key = Inl TypeError"
| "py_getitem (PList xs) key = Inl TypeError"

text \<open>
  \<open>isinstance(v, (list, tuple)) and len(v) == 2\<close>; \<open>json.loads\<close> produces no tuples.
\<close>

fun is_list_of_two :: "pyval \<Rightarrow> bool" where
  "is_list_of_two (PList xs) = (length xs = 2)"
| "is_list_of_two PNone = False"
| "is_list_of_two (PBool b) = False"
| "is_list_of_two (PInt i) = False"
| "is_list_of_two (PFloat r) = False"
| "is_list_of_two (PStr s) = False"
| "is_list_of_two (PDict kvs) = False"

definition EXPECTED_CAMERAS :: "int list" where
  "EXPECTED_CAMERAS = [0, 1]"

definition required_keys :: "string list" where
  "required_keys = [''resolution'', ''fps'', ''cameras'', ''timestamp'']"

text \<open>
  \<open>validate_payload(payload)\<close> (lines 16 to 31). \<open>Inr\<close> is the returned boolean,
  \<open>Inl\<close> an exception, which the caller's \<open>except Exception\<close> catches.
\<close>

definition validate_payload :: "pyval \<Rightarrow> py_error + bool" where
  "validate_payload payload =
     (case all_in required_keys payload of
        Inl e \<Rightarrow> Inl e
      | Inr present \<Rightarrow>
          if present then
            (case py_getitem payload ''cameras'' of
               Inl e \<Rightarrow> Inl e
             | Inr cameras \<Rightarrow>
                 if py_eq_int_list cameras EXPECTED_CAMERAS then
                   (case py_getitem payload ''resolution'' of
                      Inl e \<Rightarrow> Inl e
                    | Inr resolution \<Rightarrow>
                        if is_list_of_two resolution then Inr True else Inr False)
                 else Inr False)
          else Inr False)"

text \<open>\<open>int.from_bytes(bs, byteorder='big')\<close>, for any number of bytes.\<close>

definition from_bytes_big :: "bytes \<Rightarrow> nat" where
  "from_bytes_big bs = foldl (\<lambda>acc b. acc * 256 + unat b) 0 bs"

text \<open>
  \<open>n.to_bytes(4, byteorder='big')\<close>, which raises \<open>OverflowError\<close> when \<open>n\<close> does not
  fit into four bytes.
\<close>

definition to_bytes4 :: "nat \<Rightarrow> py_error + bytes" where
  "to_bytes4 n =
     (if n < 2 ^ 32
      then Inr [of_nat (n div 2 ^ 24), of_nat (n div 2 ^ 16), of_nat (n div 2 ^ 8), of_nat n]
      else Inl OverflowError)"

text \<open>
  What \<open>send_handshake\<close> of pi_handshake.py writes (lines 42 to 47): two \<open>sendall\<close>
  calls, the four-byte length and then the JSON body.
\<close>

definition send_handshake_writes :: "bytes \<Rightarrow> py_error + bytes list" where
  "send_handshake_writes payload_bytes =
     (case to_bytes4 (length payload_bytes) of
        Inl e \<Rightarrow> Inl e
      | Inr length_bytes \<Rightarrow> Inr [length_bytes, payload_bytes])"

text \<open>
  The reading part of \<open>handle_handshake\<close> (lines 48 to 56): the bytes that are handed to
  \<open>json.loads\<close>, or \<open>None\<close> for the early \<open>return\<close> of line 52. There is one \<open>recv\<close> for
  the length and one \<open>recv\<close> for the body.
\<close>

definition recv_handshake_payload :: "socket \<Rightarrow> bytes option" where
  "recv_handshake_payload client =
     (case recv 4 client of
        (length_bytes, client1) \<Rightarrow>
          if length_bytes = [] then None
          else Some (fst (recv (from_bytes_big length_bytes) client1)))"

datatype hs_log = NoDataReceived | HandshakeError | ValidationFailed | SentAck

text \<open>
  The outcome of one run of \<open>handle_handshake\<close>: the value the function returns, the JSON
  documents it has written to the client with \<open>sendall(json.dumps(...))\<close>, and the last
  line it has logged.
\<close>

record hs_result =
  returned :: pyval
  sent :: "pyval list"
  logged :: hs_log

text \<open>
  \<open>handle_handshake()\<close> from the accepted connection on (lines 48 to 72); the set-up of
  the listening socket and \<open>accept\<close> are left out. \<open>loads\<close> stands for
  \<open>json.loads(payload_bytes.decode('utf-8'))\<close>, with \<open>None\<close> for its exceptions. The
  function has no \<open>return\<close> with a value: it returns \<open>None\<close> on every path.
\<close>

definition handle_handshake :: "(bytes \<Rightarrow> pyval option) \<Rightarrow> socket \<Rightarrow> hs_result" where
  "handle_handshake loads client =
     (case recv_handshake_payload client of
        None \<Rightarrow> \<lparr>returned = PNone, sent = [], logged = NoDataReceived\<rparr>
      | Some payload_bytes \<Rightarrow>
          (case loads payload_bytes of
             None \<Rightarrow> \<lparr>returned = PNone, sent = [], logged = HandshakeError\<rparr>
           | Some payload \<Rightarrow>
               (case validate_payload payload of
                  Inl e \<Rightarrow> \<lparr>returned = PNone, sent = [], logged = HandshakeError\<rparr>
                | Inr valid \<Rightarrow>
                    if valid then
                      (case py_getitem payload ''timestamp'' of
                         Inl e \<Rightarrow> \<lparr>returned = PNone, sent = [], logged = HandshakeError\<rparr>
                       | Inr timestamp \<Rightarrow>
                           \<lparr>returned = PNone,
                            sent = [PDict [(''status'', PStr ''ACK''), (''timestamp'', timestamp)]],
                            logged = SentAck\<rparr>)
                    else \<lparr>returned = PNone, sent = [], logged = ValidationFailed\<rparr>)))"

text \<open>
  The spec's reading of the handshake invariant, for comparison with \<open>validate_payload\<close>:
  the payload "carries exactly the expected set of camera identifiers", that is, its
  camera list and the expected list have the same elements (up to Python's \<open>==\<close>), in
  any order and with any repetition.
\<close>

definition spec_same_camera_set :: "pyval list \<Rightarrow> int list \<Rightarrow> bool" where
  "spec_same_camera_set cameras expected =
     (list_all (\<lambda>c. list_ex (py_eq_int c) expected) cameras \<and>
      list_all (\<lambda>k. list_ex (\<lambda>c. py_eq_int c k) cameras) expected)"

text \<open>The bytes of an ASCII text, as \<open>str.encode('utf-8')\<close> gives them.\<close>

definition ascii :: "string \<Rightarrow> bytes" where
  "ascii s = map (\<lambda>c. of_nat (of_char c)) s"

text \<open>
  The same reading for a payload as a whole: \<open>payload['cameras']\<close> is a list with the
  expected set of identifiers, and \<open>payload['resolution']\<close> has two elements.
\<close>

definition spec_carries_expected_cameras :: "pyval \<Rightarrow> bool" where
  "spec_carries_expected_cameras payload =
     (case py_getitem payload ''cameras'' of
        Inl e \<Rightarrow> False
      | Inr cameras \<Rightarrow>
          (case cameras of
             PList cams \<Rightarrow> spec_same_camera_set cams EXPECTED_CAMERAS
           | _ \<Rightarrow> False))"

definition spec_two_element_resolution :: "pyval \<Rightarrow> bool" where
  "spec_two_element_resolution payload =
     (case py_getitem payload ''resolution'' of
        Inl e \<Rightarrow> False
      | Inr resolution \<Rightarrow> is_list_of_two resolution)"

text \<open>
  Two concrete handshake messages. The first is what pi_handshake.py sends with its
  \<open>CONFIG\<close> and the timestamp 1.5; the second lists the two cameras in the other order.
  Each body is given with the value \<open>json.loads\<close> returns for it.
\<close>

definition config_body :: bytes where
  \<open>config_body =
     ascii ''{"resolution": [320, 240], "fps": 15, "cameras": [0, 1], "timestamp": 1.5}''\<close>

definition config_payload :: pyval where
  "config_payload = PDict
     [(''resolution'', PList [PInt 320, PInt 240]), (''fps'', PInt 15),
      (''cameras'', PList [PInt 0, PInt 1]), (''timestamp'', PFloat 1.5)]"

definition swapped_body :: bytes where
  \<open>swapped_body =
     ascii ''{"resolution": [320, 240], "fps": 15, "cameras": [1, 0], "timestamp": 1.5}''\<close>

definition swapped_payload :: pyval where
  "swapped_payload = PDict
     [(''resolution'', PList [PInt 320, PInt 240]), (''fps'', PInt 15),
      (''cameras'', PList [PInt 1, PInt 0]), (''timestamp'', PFloat 1.5)]"

text \<open>A third message, from a node with the cameras 0 and 2.\<close>

definition other_body :: bytes where
  \<open>other_body =
     ascii ''{"resolution": [320, 240], "fps": 15, "cameras": [0, 2], "timestamp": 1.5}''\<close>

definition other_payload :: pyval where
  "other_payload = PDict
     [(''resolution'', PList [PInt 320, PInt 240]), (''fps'', PInt 15),
      (''cameras'', PList [PInt 0, PInt 2]), (''timestamp'', PFloat 1.5)]"

section \<open>The stereo depth server (xeon_stream_depth.py)\<close>

text \<open>
  The variables the ingestion loop and the web thread work on. \<open>latest_frames\<close> and
  \<open>latest_depth\<close> are the module-level variables of lines 29 and 30; a camera without a
  frame (the initial \<open>None\<close>, or no key at all) is \<open>None\<close> in the map.
  \<open>main_latest_depth\<close> is the variable that the assignment of line 183 binds: \<open>main\<close>
  has no \<open>global latest_depth\<close> declaration, so Python makes the name local to \<open>main\<close>
  (\<open>None\<close> here while it is unbound). The item assignments to \<open>latest_frames\<close> do not
  rebind the name and so change the module-level dict.
\<close>

record 'img depth_state =
  latest_frames :: "int \<Rightarrow> 'img option"
  latest_depth :: "'img option"
  main_latest_depth :: "'img option"

definition depth_init :: "'img depth_state" where
  "depth_init = \<lparr>latest_frames = (\<lambda>cam_id. None), latest_depth = None,
                  main_latest_depth = None\<rparr>"

text \<open>
  \<open>compute_depth_map(left_frame, right_frame)\<close> (lines 63 to 77); \<open>stereo\<close> stands for
  the OpenCV pipeline of lines 68 to 76 (grey conversion, StereoBM, normalisation).
\<close>

definition compute_depth_map ::
  "('img \<Rightarrow> 'img \<Rightarrow> 'img) \<Rightarrow> 'img option \<Rightarrow> 'img option \<Rightarrow> 'img option" where
  "compute_depth_map stereo left_frame right_frame =
     (case left_frame of
        None \<Rightarrow> None
      | Some l \<Rightarrow> (case right_frame of None \<Rightarrow> None | Some r \<Rightarrow> Some (stereo l r)))"

text \<open>
  \<open>detect_objects_and_depth(frame, depth_map)\<close> (lines 79 to 108); \<open>annotate\<close> stands
  for lines 83 to 107, which return an annotated copy of the frame.
\<close>

definition detect_objects_and_depth ::
  "('img \<Rightarrow> 'img \<Rightarrow> 'img) \<Rightarrow> 'img option \<Rightarrow> 'img option \<Rightarrow> 'img option" where
  "detect_objects_and_depth annotate frame depth_map =
     (case frame of
        None \<Rightarrow> frame
      | Some f \<Rightarrow> (case depth_map of None \<Rightarrow> frame | Some d \<Rightarrow> Some (annotate f d)))"

text \<open>
  The body of the loop of \<open>main\<close> for a received frame (lines 178 to 187), under the
  lock.
\<close>

definition depth_update ::
  "('img \<Rightarrow> 'img \<Rightarrow> 'img) \<Rightarrow> ('img \<Rightarrow> 'img \<Rightarrow> 'img) \<Rightarrow> 'img depth_state \<Rightarrow> int \<Rightarrow> 'img \<Rightarrow>
   'img depth_state" where
  "depth_update stereo annotate st cam_id frame =
     (let frames = (latest_frames st)(cam_id := Some frame) in
      if frames 0 \<noteq> None \<and> frames 1 \<noteq> None then
        (let depth = compute_depth_map stereo (frames 0) (frames 1);
             frames0 = frames(0 := detect_objects_and_depth annotate (frames 0) depth);
             frames1 = frames0(1 := detect_objects_and_depth annotate (frames0 1) depth)
         in st\<lparr>latest_frames := frames1, main_latest_depth := depth\<rparr>)
      else st\<lparr>latest_frames := frames\<rparr>)"

text \<open>
  The state after \<open>n\<close> rounds of the \<open>while True\<close> loop of \<open>main\<close> (lines 172 to 191),
  which has no \<open>break\<close>. A round in which \<open>receive_frame\<close> returns \<open>(None, None)\<close>
  changes nothing but the socket.
\<close>

fun depth_main_loop ::
  "(bytes \<Rightarrow> 'img option) \<Rightarrow> ('img \<Rightarrow> 'img \<Rightarrow> 'img) \<Rightarrow> ('img \<Rightarrow> 'img \<Rightarrow> 'img) \<Rightarrow> nat \<Rightarrow>
   socket \<Rightarrow> 'img depth_state \<Rightarrow> 'img depth_state \<times> socket" where
  "depth_main_loop imdecode stereo annotate 0 client st = (st, client)"
| "depth_main_loop imdecode stereo annotate (Suc n) client st =
     (case receive_frame imdecode client of
        (None, client') \<Rightarrow> depth_main_loop imdecode stereo annotate n client' st
      | (Some (cam_id, frame), client') \<Rightarrow>
          depth_main_loop imdecode stereo annotate n client'
            (depth_update stereo annotate st (int cam_id) frame))"

text \<open>
  The frame that \<open>generate_mjpeg_stream(data_type)\<close> picks in each round (lines 113 to
  118). It runs in the web thread and reads the module-level variables. \<open>py_int\<close> is
  Python's \<open>int(data_type)\<close>, \<open>None\<close> when it raises \<open>ValueError\<close>.
\<close>

definition stream_frame ::
  "(string \<Rightarrow> int option) \<Rightarrow> 'img depth_state \<Rightarrow> string \<Rightarrow> py_error + 'img option" where
  "stream_frame py_int st data_type =
     (if data_type = ''depth'' then Inr (latest_depth st)
      else (case py_int data_type of
              None \<Rightarrow> Inl ValueError
            | Some cam_id \<Rightarrow> Inr (latest_frames st cam_id)))"

section \<open>The fiducial distance server (server_stream_cal_1.py)\<close>

text \<open>
  The OpenCV operations \<open>detect_framing_square\<close> is built from. \<open>square_contours\<close> is
  the segmentation of lines 81 to 89 (HSV conversion, colour range, erosion, dilation,
  external contours), \<open>approxPolyDP\<close> the polygon of a contour with the tolerance of
  lines 98 and 99, \<open>solvePnP\<close> the pose solver applied to the fixed object points and
  intrinsics, returning the success flag and the translation vector, \<open>draw_detection\<close>
  the drawing of lines 118 to 120. Areas and distances are floats, taken as reals.
\<close>

record ('img, 'contour) cv2 =
  frame_shape :: "'img \<Rightarrow> nat \<times> nat"
  square_contours :: "'img \<Rightarrow> 'contour list"
  contourArea :: "'contour \<Rightarrow> real"
  approxPolyDP :: "'contour \<Rightarrow> (int \<times> int) list"
  solvePnP :: "(int \<times> int) list \<Rightarrow> bool \<times> real \<times> real \<times> real"
  draw_detection :: "'img \<Rightarrow> (int \<times> int) list \<Rightarrow> real \<Rightarrow> 'img"
  canny_edges :: "'img \<Rightarrow> 'img"

text \<open>\<open>tvec[2][0]\<close>: the third component of the translation vector.\<close>

fun tvec_z :: "real \<times> real \<times> real \<Rightarrow> real" where
  "tvec_z (tx, ty, tz) = tz"

text \<open>\<open>min_area = 0.1 * frame.shape[0] * frame.shape[1]\<close> (line 94).\<close>

definition min_area :: "('img, 'contour) cv2 \<Rightarrow> 'img \<Rightarrow> real" where
  "min_area cv frame = (1 / 10) * real (fst (frame_shape cv frame)) * real (snd (frame_shape cv frame))"

text \<open>
  The loop over the contours (lines 95 to 121), with \<open>output_frame\<close> and \<open>distance\<close> as
  its results. The \<open>break\<close> of line 121 belongs to the branch \<open>len(approx) == 4\<close>: a
  large contour that is not a quadrilateral does not end the loop.
\<close>

fun scan_contours ::
  "('img, 'contour) cv2 \<Rightarrow> real \<Rightarrow> 'img \<Rightarrow> 'contour list \<Rightarrow> 'img \<times> real option" where
  "scan_contours cv area_min output_frame [] = (output_frame, None)"
| "scan_contours cv area_min output_frame (contour # contours) =
     (if contourArea cv contour > area_min then
        (if length (approxPolyDP cv contour) = 4 then
           (case solvePnP cv (approxPolyDP cv contour) of
              (ret, tvec) \<Rightarrow>
                if ret
                then (draw_detection cv output_frame (approxPolyDP cv contour) (tvec_z tvec),
                      Some (tvec_z tvec))
                else (output_frame, None))
         else scan_contours cv area_min output_frame contours)
      else scan_contours cv area_min output_frame contours)"

text \<open>
  \<open>detect_framing_square(frame)\<close> (lines 75 to 124). \<open>None\<close> is the early
  \<open>return None, None\<close> for a missing frame; otherwise the result is
  \<open>(output_frame, edges, distance)\<close>.
\<close>

definition detect_framing_square ::
  "('img, 'contour) cv2 \<Rightarrow> 'img option \<Rightarrow> ('img \<times> 'img \<times> real option) option" where
  "detect_framing_square cv frame_opt =
     (case frame_opt of
        None \<Rightarrow> None
      | Some frame \<Rightarrow>
          (case scan_contours cv (min_area cv frame) frame (square_contours cv frame) of
             (output_frame, distance) \<Rightarrow> Some (output_frame, canny_edges cv frame, distance)))"

text \<open>The two tests a contour has to pass to reach the pose solver.\<close>

definition is_large :: "('img, 'contour) cv2 \<Rightarrow> 'img \<Rightarrow> 'contour \<Rightarrow> bool" where
  "is_large cv frame contour = (contourArea cv contour > min_area cv frame)"

definition is_large_quad :: "('img, 'contour) cv2 \<Rightarrow> 'img \<Rightarrow> 'contour \<Rightarrow> bool" where
  "is_large_quad cv frame contour =
     (is_large cv frame contour \<and> length (approxPolyDP cv contour) = 4)"

text \<open>
  The module-level variables of lines 30 and 31 and the variables that lines 198 and
  199 of \<open>main\<close> bind; as in the depth server, \<open>main\<close> declares neither name
  \<open>global\<close>.
\<close>

record 'img cal_state =
  latest_frame :: "'img option"
  latest_edges :: "'img option"
  main_latest_frame :: "'img option"
  main_latest_edges :: "'img option"

definition cal_init :: "'img cal_state" where
  "cal_init = \<lparr>latest_frame = None, latest_edges = None,
                main_latest_frame = None, main_latest_edges = None\<rparr>"

definition EXPECTED_CAMERA :: nat where
  "EXPECTED_CAMERA = 0"

text \<open>The body of the loop of \<open>main\<close> for a received frame (lines 187 to 200).\<close>

definition cal_update ::
  "('img, 'contour) cv2 \<Rightarrow> 'img cal_state \<Rightarrow> nat \<Rightarrow> 'img \<Rightarrow> 'img cal_state" where
  "cal_update cv st cam_id frame =
     (if cam_id \<noteq> EXPECTED_CAMERA then st
      else (case detect_framing_square cv (Some frame) of
              None \<Rightarrow> st
            | Some (output_frame, edges, distance) \<Rightarrow>
                st\<lparr>main_latest_frame := Some output_frame, main_latest_edges := Some edges\<rparr>))"

text \<open>
  The frame that \<open>generate_mjpeg_stream(data_type)\<close> of this server picks (line 130).
\<close>

definition cal_stream_frame :: "'img cal_state \<Rightarrow> string \<Rightarrow> 'img option" where
  "cal_stream_frame st data_type =
     (if data_type = ''frame'' then latest_frame st else latest_edges st)"

text \<open>
  A frame with two large contours, a pentagon followed by a quadrilateral, on a 320 by
  240 image. A contour is given by its polygon; the pose solver finds the target two
  metres away.
\<close>

definition pentagon :: "(int \<times> int) list" where
  "pentagon = [(10, 10), (150, 10), (170, 100), (80, 180), (10, 100)]"

definition quadrilateral :: "(int \<times> int) list" where
  "quadrilateral = [(180, 20), (310, 20), (310, 200), (180, 200)]"

definition two_contours_cv :: "(unit, (int \<times> int) list) cv2" where
  "two_contours_cv =
     \<lparr>frame_shape = (\<lambda>frame. (240, 320)),
      square_contours = (\<lambda>frame. [pentagon, quadrilateral]),
      contourArea = (\<lambda>contour. 10000),
      approxPolyDP = (\<lambda>contour. contour),
      solvePnP = (\<lambda>points. (True, 0, 0, 2)),
      draw_detection = (\<lambda>frame points distance. frame),
      canny_edges = (\<lambda>frame. frame)\<rparr>"

section \<open>Frames on the byte stream\<close>

text \<open>
  The first \<open>n\<close> bytes of the stream, however they are cut into pieces, together with
  the stream behind them; \<open>None\<close> when the stream ends before \<open>n\<close> bytes have come.
\<close>

fun take_bytes :: "nat \<Rightarrow> socket \<Rightarrow> (bytes \<times> socket) option" where
  "take_bytes n [] = (if n = 0 then Some ([], []) else None)"
| "take_bytes n (c # cs) =
     (if n = 0 then Some ([], c # cs)
      else if length c \<le> n then
        (case take_bytes (n - length c) cs of
           None \<Rightarrow> None
         | Some (bs, cs') \<Rightarrow> Some (c @ bs, cs'))
      else Some (take n c, drop n c # cs))"

text \<open>The length of the piece that the next \<open>recv\<close> is going to read from.\<close>

fun next_piece_length :: "socket \<Rightarrow> nat" where
  "next_piece_length [] = 0"
| "next_piece_length (c # cs) = (if c = [] then next_piece_length cs else length c)"

text \<open>
  \<open>carries client frames client'\<close>: the stream \<open>client\<close> starts with the given frames,
  one after the other, and goes on as \<open>client'\<close>. A frame is an eight-byte header with
  the camera identifier and the payload length, followed by the payload. The pieces of
  the stream may be cut anywhere, also across two frames, except within a header: when a
  header is due, the next piece holds all eight bytes of it.
\<close>

fun carries :: "socket \<Rightarrow> (u32 \<times> bytes) list \<Rightarrow> socket \<Rightarrow> bool" where
  "carries client [] client' = (client' = client)"
| "carries client ((cam_id, payload) # frames) client' =
     (if 8 \<le> next_piece_length client then
        (case take_bytes 8 client of
           None \<Rightarrow> False
         | Some (header, client1) \<Rightarrow>
             if fst (unpack_II header) = cam_id \<and> unat (snd (unpack_II header)) = length payload
             then (case take_bytes (length payload) client1 of
                     None \<Rightarrow> False
                   | Some (bs, client2) \<Rightarrow>
                       if bs = payload then carries client2 frames client' else False)
             else False)
      else False)"

section \<open>The depth estimate of the stereo depth server (xeon_stream_depth.py)\<close>

text \<open>
  Single-channel images as arrays of numbers, row by row: the 16-bit disparity map of
  the block matcher and the 8-bit map made from it. A rectangle is \<open>(x, y, w, h)\<close>.
\<close>

type_synonym image = "int list list"
type_synonym rect = "nat \<times> nat \<times> nat \<times> nat"

text \<open>\<open>CONFIG['FOCAL_LENGTH']\<close> and \<open>CONFIG['BASELINE']\<close> (lines 21 and 22).\<close>

definition FOCAL_LENGTH :: real where
  "FOCAL_LENGTH = 500"

definition BASELINE :: real where
  "BASELINE = 1 / 10"

text \<open>
  OpenCV's conversion to an 8-bit pixel: rounding to the nearest integer, a tie to the
  even one, and saturation to the range from 0 to 255.
\<close>

definition cvRound :: "real \<Rightarrow> int" where
  "cvRound x =
     (if x - of_int \<lfloor>x\<rfloor> < 1 / 2 then \<lfloor>x\<rfloor>
      else if 1 / 2 < x - of_int \<lfloor>x\<rfloor> then \<lfloor>x\<rfloor> + 1
      else if even \<lfloor>x\<rfloor> then \<lfloor>x\<rfloor> else \<lfloor>x\<rfloor> + 1)"

definition saturate_u8 :: "int \<Rightarrow> int" where
  "saturate_u8 i = max 0 (min 255 i)"

text \<open>
  \<open>cv2.normalize(disparity, None, alpha=0, beta=255, norm_type=cv2.NORM_MINMAX,
  dtype=cv2.CV_8U)\<close> (line 76), which the spec describes as normalising the disparities
  to a fixed 0 to 255 range for display: the smallest value of the map goes to 0, the
  largest to 255, the others linearly in between; a map of one single value goes to 0
  everywhere. The arithmetic is that of the reals.
\<close>

definition normalize_minmax :: "image \<Rightarrow> image" where
  "normalize_minmax src =
     (case concat src of
        [] \<Rightarrow> src
      | v # vs \<Rightarrow>
          (let smin = fold min vs v;
               smax = fold max vs v;
               scale = (if 0 < smax - smin then 255 / of_int (smax - smin) else 0);
               shift = 0 - of_int smin * scale
           in map (map (\<lambda>p. saturate_u8 (cvRound (of_int p * scale + shift)))) src))"

text \<open>
  Lines 68 to 76 of \<open>compute_depth_map\<close>, to be used as its parameter \<open>stereo\<close>:
  \<open>block_match\<close> is the grey conversion followed by \<open>StereoBM.compute\<close> (16 disparity
  levels, block size 15), which returns the disparity in sixteenths of a pixel, and
  \<open>-16\<close> where it finds no match; the result is then normalised.
\<close>

definition stereo_display :: "(image \<Rightarrow> image \<Rightarrow> image) \<Rightarrow> image \<Rightarrow> image \<Rightarrow> image" where
  "stereo_display block_match left_frame right_frame =
     normalize_minmax (block_match left_frame right_frame)"

text \<open>\<open>depth_map[y:y+h, x:x+w]\<close> (line 98).\<close>

fun roi :: "image \<Rightarrow> rect \<Rightarrow> image" where
  "roi depth_map (x, y, w, h) = map (\<lambda>row. take w (drop x row)) (take h (drop y depth_map))"

text \<open>
  Lines 98 to 103 of \<open>detect_objects_and_depth\<close>: the depth estimate for one bounding
  box, \<open>None\<close> when none is computed.
\<close>

definition box_depth_meters :: "image \<Rightarrow> rect \<Rightarrow> real option" where
  "box_depth_meters depth_map box =
     (let valid_depth = filter (\<lambda>v. 0 < v) (concat (roi depth_map box)) in
      if 0 < length valid_depth then
        (let avg_disparity = of_int (sum_list valid_depth) / of_nat (length valid_depth) in
         if 0 < avg_disparity then Some ((FOCAL_LENGTH * BASELINE) / avg_disparity) else None)
      else None)"

text \<open>
  The OpenCV operations of lines 84 to 96: the shape of the frame, the external
  contours of its edge map, the area and the bounding box of a contour.
\<close>

record ('img, 'contour) cv2_objects =
  object_shape :: "'img \<Rightarrow> nat \<times> nat"
  edge_contours :: "'img \<Rightarrow> 'contour list"
  object_area :: "'contour \<Rightarrow> real"
  boundingRect :: "'contour \<Rightarrow> rect"

text \<open>
  The loop over the contours (lines 93 to 107): the boxes that are drawn, each with the
  depth written next to it. This is what the parameter \<open>annotate\<close> of
  \<open>detect_objects_and_depth\<close> draws onto the copy of the frame.
\<close>

fun depth_labels ::
  "('img, 'contour) cv2_objects \<Rightarrow> real \<Rightarrow> image \<Rightarrow> 'contour list \<Rightarrow> (rect \<times> real) list" where
  "depth_labels cv area_min depth_map [] = []"
| "depth_labels cv area_min depth_map (contour # contours) =
     (if object_area cv contour > area_min then
        (case box_depth_meters depth_map (boundingRect cv contour) of
           None \<Rightarrow> depth_labels cv area_min depth_map contours
         | Some depth_meters \<Rightarrow>
             (boundingRect cv contour, depth_meters) # depth_labels cv area_min depth_map contours)
      else depth_labels cv area_min depth_map contours)"

definition object_depths :: "('img, 'contour) cv2_objects \<Rightarrow> 'img \<Rightarrow> image \<Rightarrow> (rect \<times> real) list" where
  "object_depths cv frame depth_map =
     depth_labels cv ((1 / 10) * real (fst (object_shape cv frame)) * real (snd (object_shape cv frame)))
       depth_map (edge_contours cv frame)"

text \<open>
  What the block matcher returns for a right image that is the left one moved by four
  pixels, and by eight pixels: 64 and 128 (sixteenths of a pixel) where the blocks match,
  \<open>-16\<close> in the columns at the left edge where they cannot. One object fills the matched
  part of the frame.
\<close>

definition shift4_disparity :: image where
  "shift4_disparity = replicate 3 [-16, -16, 64, 64, 64, 64]"

definition shift8_disparity :: image where
  "shift8_disparity = replicate 3 [-16, -16, 128, 128, 128, 128]"

definition one_object_cv :: "(unit, unit) cv2_objects" where
  "one_object_cv =
     \<lparr>object_shape = (\<lambda>frame. (3, 6)),
      edge_contours = (\<lambda>frame. [()]),
      object_area = (\<lambda>contour. 8),
      boundingRect = (\<lambda>contour. (2, 0, 4, 3))\<rparr>"

section \<open>Properties of the header codec\<close>

lemma unpack_pack_u32: "unpack_u32 (pack_u32 w) = w"
proof (rule bit_word_eqI)
  fix n :: nat
  assume n: "n < LENGTH(32)"
  consider "n < 8" | "8 \<le> n" "n < 16" | "16 \<le> n" "n < 24" | "24 \<le> n"
    by linarith
  then show "bit (unpack_u32 (pack_u32 w)) n = bit w n"
  proof cases
    case 1
    then show ?thesis using n by (auto simp add: unpack_u32_def pack_u32_def bit_simps)
  next
    case 2
    then show ?thesis using n by (auto simp add: unpack_u32_def pack_u32_def bit_simps)
  next
    case 3
    then show ?thesis using n by (auto simp add: unpack_u32_def pack_u32_def bit_simps)
  next
    case 4
    then show ?thesis using n by (auto simp add: unpack_u32_def pack_u32_def bit_simps)
  qed
qed

lemma length_pack_u32: "length (pack_u32 w) = 4"
  by (simp add: pack_u32_def)

lemma unpack_II_encodeHeader: "unpack_II (encodeHeader c n) = (c, n)"
  by (simp add: unpack_II_def encodeHeader_def length_pack_u32 unpack_pack_u32)

text \<open>
  C8. Frame-header round trip: for all unsigned 32-bit \<open>id\<close> and \<open>len\<close>, the header
  encoder produces eight bytes, and decoding them as \<open>receive_frame\<close> does gives
  \<open>(id, len)\<close> back.
\<close>

theorem header_round_trip:
  "length (encodeHeader cameraId payloadLength) = 8 \<and>
   decodeHeader (encodeHeader cameraId payloadLength) = Some (cameraId, payloadLength)"
  by (simp add: decodeHeader_def unpack_II_encodeHeader)
    (simp add: encodeHeader_def length_pack_u32)

section \<open>Properties of the frame ingestion loop\<close>

lemma receive_frame_closed: "receive_frame imdecode [] = (None, [])"
  by (simp add: receive_frame_def)

lemma main_loop_closed: "main_loop imdecode canny fuel [] keys shown = None"
  by (induction fuel) (simp_all add: receive_frame_closed)

lemma take_bytes_0 [simp]: "take_bytes 0 client = Some ([], client)"
  by (cases client) simp_all

lemma take_bytes_length: "take_bytes n client = Some (bs, client') \<Longrightarrow> length bs = n"
proof (induction client arbitrary: n bs client')
  case Nil
  then show ?case by (simp split: if_splits)
next
  case (Cons c cs)
  show ?case
  proof (cases "n = 0")
    case True
    with Cons.prems show ?thesis by simp
  next
    case n: False
    show ?thesis
    proof (cases "length c \<le> n")
      case True
      with n Cons.prems obtain bs' where t: "take_bytes (n - length c) cs = Some (bs', client')"
        and b: "bs = c @ bs'"
        by (auto split: option.splits)
      from Cons.IH [OF t] b True show ?thesis by simp
    next
      case False
      with n Cons.prems show ?thesis by auto
    qed
  qed
qed

lemma recv_empty_chunk:
  "0 < n \<Longrightarrow> recv n client = (chunk, client') \<Longrightarrow> chunk = [] \<Longrightarrow>
   client' = [] \<and> (\<forall>k>0. take_bytes k client = None)"
proof (induction client)
  case Nil
  then show ?case by simp
next
  case (Cons c cs)
  show ?case
  proof (cases "c = []")
    case True
    with Cons show ?thesis by simp
  next
    case False
    with Cons.prems show ?thesis by (auto split: if_splits)
  qed
qed

lemma recv_chunk_take_bytes:
  "0 < n \<Longrightarrow> recv n client = (chunk, client') \<Longrightarrow> chunk \<noteq> [] \<Longrightarrow> length chunk \<le> k \<Longrightarrow>
   length chunk \<le> n \<and>
   take_bytes k client =
     (case take_bytes (k - length chunk) client' of
        None \<Rightarrow> None
      | Some (bs, s) \<Rightarrow> Some (chunk @ bs, s))"
proof (induction client)
  case Nil
  then show ?case by simp
next
  case (Cons c cs)
  show ?case
  proof (cases "c = []")
    case True
    with Cons show ?thesis by (cases "k = 0") (auto split: option.splits)
  next
    case c: False
    show ?thesis
    proof (cases "length c \<le> n")
      case True
      with c Cons.prems have cc: "chunk = c" "client' = cs" by auto
      with c Cons.prems(4) have "0 < k" by (cases c) auto
      with cc c True Cons.prems(4) show ?thesis by auto
    next
      case False
      with c Cons.prems have ch: "chunk = take n c" and cl: "client' = drop n c # cs" by auto
      from False have ln: "length chunk = n" by (simp add: ch)
      show ?thesis
      proof (cases "k = n")
        case True
        with False c Cons.prems(1) show ?thesis by (simp add: ch cl)
      next
        case kn: False
        with ln Cons.prems(4) have k: "n < k" by simp
        show ?thesis
        proof (cases "length c \<le> k")
          case True
          then have "length c - n \<le> k - n" by simp
          moreover have "k - n - (length c - n) = k - length c" using False True by simp
          ultimately show ?thesis
            using k True False Cons.prems(1) ln
            by (auto simp add: ch cl split: option.splits)
        next
          case nk: False
          have "take n c @ take (k - n) (drop n c) = take k c"
            using k by (metis le_add_diff_inverse less_imp_le take_add)
          moreover have "drop (k - n) (drop n c) = drop k c" using k by simp
          ultimately show ?thesis
            using k nk False Cons.prems(1) ln by (simp add: ch cl)
        qed
      qed
    qed
  qed
qed

lemma recv_frame_data_take_bytes:
  "bytes_received \<le> frame_size \<Longrightarrow>
   recv_frame_data frame_size frame_data bytes_received client =
     (case take_bytes (frame_size - bytes_received) client of
        None \<Rightarrow> (None, [])
      | Some (bs, client') \<Rightarrow> (Some (frame_data @ bs), client'))"
proof (induction frame_size frame_data bytes_received client rule: recv_frame_data.induct)
  case (1 frame_size frame_data bytes_received client)
  show ?case
  proof (cases "bytes_received < frame_size")
    case False
    with "1.prems" show ?thesis by (simp add: recv_frame_data.simps)
  next
    case lt: True
    let ?n = "min BUFFER_SIZE (frame_size - bytes_received)"
    let ?k = "frame_size - bytes_received"
    have n: "0 < ?n" using lt by (simp add: BUFFER_SIZE_def)
    obtain chunk client' where r: "recv ?n client = (chunk, client')"
      by (cases "recv ?n client")
    show ?thesis
    proof (cases "chunk = []")
      case True
      from recv_empty_chunk [OF n r True] lt
      have "client' = []" "take_bytes ?k client = None" by auto
      with lt r True show ?thesis by (simp add: recv_frame_data.simps)
    next
      case False
      have le: "length chunk \<le> ?n"
        using recv_chunk_take_bytes [OF n r False, of "length chunk"] by simp
      then have lk: "length chunk \<le> ?k" by simp
      from recv_chunk_take_bytes [OF n r False lk]
      have t: "take_bytes ?k client =
          (case take_bytes (?k - length chunk) client' of
             None \<Rightarrow> None | Some (bs, s) \<Rightarrow> Some (chunk @ bs, s))" by simp
      have ih: "recv_frame_data frame_size (frame_data @ chunk) (bytes_received + length chunk) client' =
          (case take_bytes (frame_size - (bytes_received + length chunk)) client' of
             None \<Rightarrow> (None, [])
           | Some (bs, client'') \<Rightarrow> (Some ((frame_data @ chunk) @ bs), client''))"
        using lk lt by (intro "1.IH" [OF lt r [symmetric] False]) simp
      have "recv_frame_data frame_size frame_data bytes_received client =
            recv_frame_data frame_size (frame_data @ chunk) (bytes_received + length chunk) client'"
        using lt r False by (subst recv_frame_data.simps) simp
      also note ih
      finally show ?thesis
        by (simp add: t diff_diff_left split: option.splits)
    qed
  qed
qed

lemma recv_header_take_bytes:
  "8 \<le> next_piece_length client \<Longrightarrow> take_bytes 8 client = Some (header, client1) \<Longrightarrow>
   recv 8 client = (header, client1)"
proof (induction client)
  case Nil
  then show ?case by simp
next
  case (Cons c cs)
  show ?case
  proof (cases "c = []")
    case True
    with Cons show ?thesis by (auto split: option.splits)
  next
    case False
    with Cons.prems show ?thesis by (auto split: if_splits)
  qed
qed

lemma receive_frame_carries:
  assumes "carries client ((cam_id, payload) # frames) rest"
  shows "\<exists>client2. carries client2 frames rest \<and>
     receive_frame imdecode client =
       (case imdecode payload of
          None \<Rightarrow> (None, client2)
        | Some frame \<Rightarrow> (Some (unat cam_id, frame), client2))"
proof -
  from assms obtain header client1 client2 where p: "8 \<le> next_piece_length client"
    and h: "take_bytes 8 client = Some (header, client1)"
    and c: "fst (unpack_II header) = cam_id"
    and n: "unat (snd (unpack_II header)) = length payload"
    and b: "take_bytes (length payload) client1 = Some (payload, client2)"
    and r: "carries client2 frames rest"
    by (auto split: if_splits option.splits)
  have l: "length header = 8" using h by (rule take_bytes_length)
  have r8: "recv 8 client = (header, client1)" using p h by (rule recv_header_take_bytes)
  have d: "recv_frame_data (length payload) [] 0 client1 = (Some payload, client2)"
    using recv_frame_data_take_bytes [of 0 "length payload" "[]" client1] b by simp
  obtain frame_size where u: "unpack_II header = (cam_id, frame_size)"
    and fs: "unat frame_size = length payload"
    using c n by (cases "unpack_II header") auto
  have "receive_frame imdecode client =
       (case imdecode payload of
          None \<Rightarrow> (None, client2)
        | Some frame \<Rightarrow> (Some (unat cam_id, frame), client2))"
    by (simp add: receive_frame_def r8 l u fs d split: option.splits)
  with r show ?thesis by blast
qed

lemma carries_append:
  "carries client (frames @ frames') rest \<longleftrightarrow>
     (\<exists>mid. carries client frames mid \<and> carries mid frames' rest)"
proof (induction frames arbitrary: client)
  case Nil
  show ?case by simp
next
  case (Cons f frames)
  obtain cam_id payload where f: "f = (cam_id, payload)" by (cases f)
  show ?case
    unfolding f by (auto simp add: Cons.IH split: option.splits)
qed

lemma main_loop_drops_undecodable:
  "carries client bad mid \<Longrightarrow> list_all (\<lambda>f. imdecode (snd f) = None) bad \<Longrightarrow>
   main_loop imdecode canny (length bad + fuel) client keys shown =
     main_loop imdecode canny fuel mid keys shown"
proof (induction bad arbitrary: client)
  case Nil
  then show ?case by simp
next
  case (Cons f bad)
  obtain cam_id payload where f: "f = (cam_id, payload)" by (cases f)
  from Cons.prems(2) f have u: "imdecode payload = None"
    and rest: "list_all (\<lambda>f. imdecode (snd f) = None) bad" by simp_all
  from receive_frame_carries [OF Cons.prems(1) [unfolded f], of imdecode] u
  obtain client2 where c2: "carries client2 bad mid"
    and r: "receive_frame imdecode client = (None, client2)" by auto
  have "main_loop imdecode canny (length (f # bad) + fuel) client keys shown =
        main_loop imdecode canny (length bad + fuel) client2 keys shown"
    using r by simp
  also have "\<dots> = main_loop imdecode canny fuel mid keys shown"
    using c2 rest by (rule Cons.IH)
  finally show ?case .
qed

text \<open>
  Undecodable frames do not end the session. On a stream that carries any number of
  frames whose payloads fail to decode, followed by a frame whose payload decodes, the
  loop of \<open>main\<close> spends one round on each undecodable frame, shows nothing and does
  not end; in the next round it receives the following frame, decodes it, runs the edge
  detection and shows the result. The pieces of the stream may be cut anywhere except
  within a header.
\<close>

theorem undecodable_frames_dropped:
  assumes "carries client (bad @ [(cam_id, payload)]) rest"
    and "list_all (\<lambda>f. imdecode (snd f) = None) bad"
    and "imdecode payload = Some frame"
  shows "main_loop imdecode canny (length bad + Suc fuel) client keys shown =
     (if fst (waitKey keys) AND 255 = 113 then Some (shown @ [(unat cam_id, canny frame)], rest)
      else main_loop imdecode canny fuel rest (snd (waitKey keys))
             (shown @ [(unat cam_id, canny frame)]))"
proof -
  from assms(1) obtain mid where b: "carries client bad mid"
    and g: "carries mid [(cam_id, payload)] rest"
    unfolding carries_append by blast
  from receive_frame_carries [OF g, of imdecode] assms(3)
  have r: "receive_frame imdecode mid = (Some (unat cam_id, frame), rest)" by auto
  have "main_loop imdecode canny (length bad + Suc fuel) client keys shown =
        main_loop imdecode canny (Suc fuel) mid keys shown"
    using b assms(2) by (rule main_loop_drops_undecodable)
  also have "\<dots> = (if fst (waitKey keys) AND 255 = 113
      then Some (shown @ [(unat cam_id, canny frame)], rest)
      else main_loop imdecode canny fuel rest (snd (waitKey keys))
             (shown @ [(unat cam_id, canny frame)]))"
    using r by (simp split: prod.split)
  finally show ?thesis .
qed

lemma main_loop_skip:
  "receive_frame imdecode client = (None, client') \<Longrightarrow>
   (\<And>fuel. main_loop imdecode canny fuel client' keys shown = None) \<Longrightarrow>
   main_loop imdecode canny fuel client keys shown = None"
  by (cases fuel) simp_all

text \<open>
  An instance: an undecodable frame of two bytes and an empty one, then a frame that
  decodes, in three pieces that each end within the next frame.
\<close>

lemma carries_example:
  "carries [[0,0,0,0,0,0,0,2,1], [2,0,0,0,1,0,0,0,0], [0,0,0,2,0,0,0,1,7]]
     [(0, [1, 2]), (1, []), (2, [7])] []"
  by (simp add: unpack_II_def unpack_u32_def)

theorem undecodable_frames_dropped_example:
  "main_loop (map_of [([7], 5::nat)]) Suc (Suc (Suc (Suc 0)))
     [[0,0,0,0,0,0,0,2,1], [2,0,0,0,1,0,0,0,0], [0,0,0,2,0,0,0,1,7]] [113] [] =
   Some ([(2, 6)], [])"
  using undecodable_frames_dropped
    [of "[[0,0,0,0,0,0,0,2,1], [2,0,0,0,1,0,0,0,0], [0,0,0,2,0,0,0,1,7]]"
        "[(0, [1, 2]), (1, [])]" 2 "[7]" "[]" "map_of [([7], 5::nat)]" 5 Suc 0 "[113]" "[]"]
    carries_example
  by (simp del: main_loop.simps carries.simps)

text \<open>
  C7. A frame whose payload fails to decode, followed by a well-formed frame of camera 1
  whose header arrives in two pieces of three and five bytes. The undecodable frame is
  dropped; then the single \<open>recv(8)\<close> returns three bytes, \<open>receive_frame\<close> gives up on
  the header, and the following rounds take the rest of the header and the payload for
  headers: after four rounds the stream is used up, nothing has been shown, and the loop
  spins. The well-formed frame is not processed. With the same bytes and the header in
  one piece it is.
\<close>

theorem split_header_loses_next_frame:
  "receive_frame (map_of [([7], frame)])
     [[0,0,0,0,0,0,0,2], [1,2], [0,0,0], [1,0,0,0,1], [7]] =
     (None, [[0,0,0], [1,0,0,0,1], [7]]) \<and>
   receive_frame (map_of [([7], frame)]) [[0,0,0], [1,0,0,0,1], [7]] =
     (None, [[1,0,0,0,1], [7]]) \<and>
   receive_frame (map_of [([7], frame)]) [[1,0,0,0,1], [7]] = (None, [[7]]) \<and>
   receive_frame (map_of [([7], frame)]) [[7]] = (None, []) \<and>
   main_loop (map_of [([7], frame)]) canny fuel
     [[0,0,0,0,0,0,0,2], [1,2], [0,0,0], [1,0,0,0,1], [7]] keys shown = None \<and>
   main_loop (map_of [([7], frame)]) canny (Suc (Suc fuel))
     [[0,0,0,0,0,0,0,2], [1,2], [0,0,0,1,0,0,0,1], [7]] keys shown =
     (if fst (waitKey keys) AND 255 = 113 then Some (shown @ [(1, canny frame)], [])
      else main_loop (map_of [([7], frame)]) canny fuel [] (snd (waitKey keys))
             (shown @ [(1, canny frame)]))"
proof -
  let ?D = "map_of [([7::byte], frame)]"
  have 1: "receive_frame ?D [[0,0,0,0,0,0,0,2], [1,2], [0,0,0], [1,0,0,0,1], [7]] =
      (None, [[0,0,0], [1,0,0,0,1], [7]])"
    by (simp add: receive_frame_def unpack_II_def unpack_u32_def BUFFER_SIZE_def
        recv_frame_data.simps)
  have 2: "receive_frame ?D [[0,0,0], [1,0,0,0,1], [7]] = (None, [[1,0,0,0,1], [7]])"
    by (simp add: receive_frame_def)
  have 3: "receive_frame ?D [[1,0,0,0,1], [7]] = (None, [[7]])"
    by (simp add: receive_frame_def)
  have 4: "receive_frame ?D [[7]] = (None, [])"
    by (simp add: receive_frame_def)
  have n: "main_loop ?D canny fuel
     [[0,0,0,0,0,0,0,2], [1,2], [0,0,0], [1,0,0,0,1], [7]] keys shown = None"
    by (rule main_loop_skip [OF 1], rule main_loop_skip [OF 2], rule main_loop_skip [OF 3],
        rule main_loop_skip [OF 4], rule main_loop_closed)
  have w: "main_loop ?D canny (Suc (Suc fuel))
     [[0,0,0,0,0,0,0,2], [1,2], [0,0,0,1,0,0,0,1], [7]] keys shown =
     (if fst (waitKey keys) AND 255 = 113 then Some (shown @ [(1, canny frame)], [])
      else main_loop ?D canny fuel [] (snd (waitKey keys)) (shown @ [(1, canny frame)]))"
    using undecodable_frames_dropped
      [of "[[0,0,0,0,0,0,0,2], [1,2], [0,0,0,1,0,0,0,1], [7]]" "[(0, [1, 2])]" 1 "[7]" "[]"
          ?D frame canny fuel keys shown]
    by (simp add: unpack_II_def unpack_u32_def del: main_loop.simps)
  from 1 2 3 4 n w show ?thesis by blast
qed

text \<open>
  C3. What the loop does when the peer disconnects. A stream that ends after three bytes
  of a header, and a stream that ends after two of the nine payload bytes its header
  announces: in both cases \<open>receive_frame\<close> returns \<open>(None, None)\<close>, and the loop of
  \<open>main\<close>, which answers \<open>(None, None)\<close> with \<open>continue\<close>, is still running after any
  number of rounds. It does not end with a connection-lost outcome.
\<close>

theorem main_loop_spins_on_disconnect:
  "receive_frame imdecode [[0, 0, 0]] = (None, []) \<and>
   main_loop imdecode canny fuel [[0, 0, 0]] keys shown = None \<and>
   receive_frame imdecode [[0, 0, 0, 0, 0, 0, 0, 9], [1, 2]] = (None, []) \<and>
   main_loop imdecode canny fuel [[0, 0, 0, 0, 0, 0, 0, 9], [1, 2]] keys shown = None"
  by (cases fuel) (simp_all add: receive_frame_def main_loop_closed unpack_II_def unpack_u32_def BUFFER_SIZE_def recv_frame_data.simps)

section \<open>Properties of the handshake\<close>

lemma all_in_dict:
  "all_in keys (PDict kvs) = Inr (list_all (\<lambda>k. map_of kvs k \<noteq> None) keys)"
  by (induction keys) auto

lemma is_list_of_two_iff: "is_list_of_two v \<longleftrightarrow> (\<exists>res. v = PList res \<and> length res = 2)"
  by (cases v) auto

lemma py_eq_int_list_iff: "py_eq_int_list v ks \<longleftrightarrow> (\<exists>cams. v = PList cams \<and> list_all2 py_eq_int cams ks)"
  by (cases v) auto

lemma validate_payload_dict:
  "validate_payload (PDict kvs) = Inr True \<longleftrightarrow>
     (\<exists>res fps cams ts. map_of kvs ''resolution'' = Some (PList res) \<and> length res = 2 \<and>
        map_of kvs ''fps'' = Some fps \<and>
        map_of kvs ''cameras'' = Some (PList cams) \<and> list_all2 py_eq_int cams [0, 1] \<and>
        map_of kvs ''timestamp'' = Some ts)"
  by (auto simp add: validate_payload_def all_in_dict required_keys_def EXPECTED_CAMERAS_def
      is_list_of_two_iff py_eq_int_list_iff split: option.splits)

lemma validate_payload_non_dict:
  "\<forall>kvs. payload \<noteq> PDict kvs \<Longrightarrow> validate_payload payload \<noteq> Inr True"
  by (cases payload) (auto simp add: validate_payload_def split: sum.splits if_splits)

lemma validate_payload_True_iff:
  "validate_payload payload = Inr True \<longleftrightarrow>
     (\<exists>kvs res fps cams ts. payload = PDict kvs \<and>
        map_of kvs ''resolution'' = Some (PList res) \<and> length res = 2 \<and>
        map_of kvs ''fps'' = Some fps \<and>
        map_of kvs ''cameras'' = Some (PList cams) \<and> list_all2 py_eq_int cams [0, 1] \<and>
        map_of kvs ''timestamp'' = Some ts)"
proof (cases "\<exists>kvs. payload = PDict kvs")
  case True
  then obtain kvs where "payload = PDict kvs" by blast
  then show ?thesis by (simp add: validate_payload_dict)
next
  case False
  then show ?thesis using validate_payload_non_dict [of payload] by auto
qed

lemma validate_True_timestamp:
  "validate_payload payload = Inr True \<Longrightarrow> \<exists>ts. py_getitem payload ''timestamp'' = Inr ts"
  by (auto simp add: validate_payload_True_iff)

lemma handle_handshake_sent_iff:
  "sent (handle_handshake loads client) \<noteq> [] \<longleftrightarrow>
     (\<exists>payload_bytes payload. recv_handshake_payload client = Some payload_bytes \<and>
        loads payload_bytes = Some payload \<and> validate_payload payload = Inr True)"
  by (auto simp add: handle_handshake_def split: option.splits sum.splits
      dest: validate_True_timestamp)

lemma spec_same_camera_set_list_all2:
  "list_all2 py_eq_int cams [0, 1] \<Longrightarrow> spec_same_camera_set cams [0, 1]"
  by (auto simp add: spec_same_camera_set_def list_all2_Cons2)

lemma validate_not_True_no_ack:
  "recv_handshake_payload client = Some payload_bytes \<Longrightarrow> loads payload_bytes = Some payload \<Longrightarrow>
   validate_payload payload \<noteq> Inr True \<Longrightarrow>
   sent (handle_handshake loads client) = [] \<and>
   (logged (handle_handshake loads client) = ValidationFailed \<or>
    logged (handle_handshake loads client) = HandshakeError)"
  by (auto simp add: handle_handshake_def split: sum.splits)

lemma spec_carries_expected_cameras_validated:
  "validate_payload payload = Inr True \<Longrightarrow> spec_carries_expected_cameras payload"
  by (auto simp add: validate_payload_True_iff spec_carries_expected_cameras_def
      EXPECTED_CAMERAS_def spec_same_camera_set_list_all2)

text \<open>
  C1, as the code has it. The server replies with an ACK if and only if the bytes it has
  read decode to an object that has the four keys \<open>resolution\<close>, \<open>fps\<close>, \<open>cameras\<close>
  and \<open>timestamp\<close>, whose \<open>cameras\<close> value is a list equal to the expected list
  \<open>[0, 1]\<close> element by element, in that order, and whose \<open>resolution\<close> is a list of two
  elements. For every decoded payload whose camera set differs from the expected set,
  validation does not succeed, no ACK is sent, and the run ends with the validation
  failure or with a caught exception.
\<close>

theorem handshake_ack_iff_validated:
  "(sent (handle_handshake loads client) \<noteq> [] \<longleftrightarrow>
     (\<exists>payload_bytes kvs res fps cams ts.
        recv_handshake_payload client = Some payload_bytes \<and>
        loads payload_bytes = Some (PDict kvs) \<and>
        map_of kvs ''resolution'' = Some (PList res) \<and> length res = 2 \<and>
        map_of kvs ''fps'' = Some fps \<and>
        map_of kvs ''cameras'' = Some (PList cams) \<and> list_all2 py_eq_int cams [0, 1] \<and>
        map_of kvs ''timestamp'' = Some ts)) \<and>
   (\<forall>payload_bytes payload.
      recv_handshake_payload client = Some payload_bytes \<and>
      loads payload_bytes = Some payload \<and>
      \<not> spec_carries_expected_cameras payload \<longrightarrow>
      validate_payload payload \<noteq> Inr True \<and>
      sent (handle_handshake loads client) = [] \<and>
      (logged (handle_handshake loads client) = ValidationFailed \<or>
       logged (handle_handshake loads client) = HandshakeError))"
proof (intro conjI allI impI)
  show "sent (handle_handshake loads client) \<noteq> [] \<longleftrightarrow>
     (\<exists>payload_bytes kvs res fps cams ts.
        recv_handshake_payload client = Some payload_bytes \<and>
        loads payload_bytes = Some (PDict kvs) \<and>
        map_of kvs ''resolution'' = Some (PList res) \<and> length res = 2 \<and>
        map_of kvs ''fps'' = Some fps \<and>
        map_of kvs ''cameras'' = Some (PList cams) \<and> list_all2 py_eq_int cams [0, 1] \<and>
        map_of kvs ''timestamp'' = Some ts)"
    unfolding handle_handshake_sent_iff validate_payload_True_iff by blast
next
  fix payload_bytes payload
  assume a: "recv_handshake_payload client = Some payload_bytes \<and>
      loads payload_bytes = Some payload \<and> \<not> spec_carries_expected_cameras payload"
  then show v: "validate_payload payload \<noteq> Inr True"
    using spec_carries_expected_cameras_validated by blast
  with a show "sent (handle_handshake loads client) = []"
    using validate_not_True_no_ack [of client payload_bytes loads payload] by blast
  from a v show "logged (handle_handshake loads client) = ValidationFailed \<or>
       logged (handle_handshake loads client) = HandshakeError"
    using validate_not_True_no_ack [of client payload_bytes loads payload] by blast
qed

lemma recv_config_whole:
  "recv_handshake_payload [[0, 0, 0, 74], config_body] = Some config_body"
  by (simp add: recv_handshake_payload_def from_bytes_big_def config_body_def ascii_def)

lemma recv_swapped_whole:
  "recv_handshake_payload [[0, 0, 0, 74], swapped_body] = Some swapped_body"
  by (simp add: recv_handshake_payload_def from_bytes_big_def swapped_body_def ascii_def)

lemma recv_other_whole:
  "recv_handshake_payload [[0, 0, 0, 74], other_body] = Some other_body"
  by (simp add: recv_handshake_payload_def from_bytes_big_def other_body_def ascii_def)

theorem handshake_ack_iff_validated_witness:
  "sent (handle_handshake (map_of [(other_body, other_payload)])
          [[0, 0, 0, 74], other_body]) = [] \<and>
   sent (handle_handshake (map_of [(config_body, config_payload)])
          [[0, 0, 0, 74], config_body]) \<noteq> []"
proof -
  have 1: "\<not> spec_carries_expected_cameras other_payload"
    by (simp add: other_payload_def spec_carries_expected_cameras_def spec_same_camera_set_def
        EXPECTED_CAMERAS_def)
  have 2: "map_of [(other_body, other_payload)] other_body = Some other_payload" by simp
  have 3: "\<exists>payload_bytes kvs res fps cams ts.
        recv_handshake_payload [[0, 0, 0, 74], config_body] = Some payload_bytes \<and>
        map_of [(config_body, config_payload)] payload_bytes = Some (PDict kvs) \<and>
        map_of kvs ''resolution'' = Some (PList res) \<and> length res = 2 \<and>
        map_of kvs ''fps'' = Some fps \<and>
        map_of kvs ''cameras'' = Some (PList cams) \<and> list_all2 py_eq_int cams [0, 1] \<and>
        map_of kvs ''timestamp'' = Some ts"
    unfolding recv_config_whole by (simp add: config_payload_def)
  show ?thesis
    using handshake_ack_iff_validated [of "map_of [(other_body, other_payload)]" "[[0, 0, 0, 74], other_body]"]
      handshake_ack_iff_validated [of "map_of [(config_body, config_payload)]" "[[0, 0, 0, 74], config_body]"]
      recv_other_whole 1 2 3
    by blast
qed

text \<open>
  C1, as stated, fails: a payload with all four fields, a two-element resolution and the
  cameras \<open>[1, 0]\<close> carries exactly the expected set of camera identifiers, yet
  \<open>validate_payload\<close> returns \<open>False\<close> for it and the server sends no ACK.
\<close>

theorem same_camera_set_rejected:
  "spec_carries_expected_cameras swapped_payload \<and>
   spec_two_element_resolution swapped_payload \<and>
   validate_payload swapped_payload = Inr False \<and>
   handle_handshake (map_of [(swapped_body, swapped_payload)]) [[0, 0, 0, 74], swapped_body] =
     \<lparr>returned = PNone, sent = [], logged = ValidationFailed\<rparr>"
proof -
  have v: "validate_payload swapped_payload = Inr False"
    by (simp add: swapped_payload_def validate_payload_def required_keys_def EXPECTED_CAMERAS_def)
  have "spec_carries_expected_cameras swapped_payload"
    by (simp add: swapped_payload_def spec_carries_expected_cameras_def spec_same_camera_set_def
        EXPECTED_CAMERAS_def)
  moreover have "spec_two_element_resolution swapped_payload"
    by (simp add: swapped_payload_def spec_two_element_resolution_def)
  moreover have "handle_handshake (map_of [(swapped_body, swapped_payload)]) [[0, 0, 0, 74], swapped_body] =
     \<lparr>returned = PNone, sent = [], logged = ValidationFailed\<rparr>"
    by (simp add: handle_handshake_def recv_swapped_whole v)
  ultimately show ?thesis using v by blast
qed

lemma from_bytes_big_to_bytes4:
  assumes "to_bytes4 n = Inr length_bytes"
  shows "from_bytes_big length_bytes = n \<and> length length_bytes = 4"
proof -
  from assms have n: "n < 2 ^ 32"
    by (auto simp add: to_bytes4_def split: if_splits)
  with assms have lb: "length_bytes =
      [of_nat (n div 2 ^ 24), of_nat (n div 2 ^ 16), of_nat (n div 2 ^ 8), of_nat n]"
    by (simp add: to_bytes4_def)
  define n1 where "n1 = n div 256"
  define n2 where "n2 = n1 div 256"
  define n3 where "n3 = n2 div 256"
  have d2: "n div 65536 = n2"
    unfolding n2_def n1_def by (simp add: div_mult2_eq [symmetric])
  have d3: "n div 16777216 = n3"
    unfolding n3_def n2_def n1_def by (simp add: div_mult2_eq [symmetric])
  have "n3 < 256"
    using n unfolding d3 [symmetric] by (simp add: div_less_iff_less_mult)
  then have m3: "n3 mod 256 = n3" by simp
  have e1: "n1 * 256 + n mod 256 = n" unfolding n1_def by simp
  have e2: "n2 * 256 + n1 mod 256 = n1" unfolding n2_def by simp
  have e3: "n3 * 256 + n2 mod 256 = n2" unfolding n3_def by simp
  have "((n div 16777216 mod 256 * 256 + n div 65536 mod 256) * 256 + n div 256 mod 256) * 256
        + n mod 256 = n"
    unfolding d3 d2 m3 e3 n1_def [symmetric] e2 e1 ..
  moreover have "n div 16777216 mod 256 = n div 16777216"
    unfolding d3 by (rule m3)
  ultimately show ?thesis
    by (simp add: lb from_bytes_big_def unat_of_nat)
qed

lemma fst_recv_0: "fst (recv 0 client) = []"
  by (induction client) auto

lemma fst_recv_whole: "fst (recv (length body) (body # rest)) = body"
  by (cases "body = []") (simp_all add: fst_recv_0)

lemma recv_handshake_payload_whole:
  assumes "send_handshake_writes payload_bytes = Inr writes"
  shows "recv_handshake_payload (writes @ rest) = Some payload_bytes"
proof -
  from assms obtain length_bytes where lb: "to_bytes4 (length payload_bytes) = Inr length_bytes"
    and w: "writes = [length_bytes, payload_bytes]"
    by (auto simp add: send_handshake_writes_def split: sum.splits)
  from from_bytes_big_to_bytes4 [OF lb]
  have f: "from_bytes_big length_bytes = length payload_bytes" and l: "length length_bytes = 4"
    by simp_all
  from l have ne: "length_bytes \<noteq> []" by auto
  have "recv 4 (writes @ rest) = (length_bytes, payload_bytes # rest)"
    using ne l by (simp add: w)
  then show ?thesis
    using ne fst_recv_whole [of payload_bytes rest]
    by (simp add: recv_handshake_payload_def f del: recv.simps)
qed

text \<open>
  C4, as the code has it. Whenever the bytes that the server's read of the body returns
  decode to an object with the four keys, \<open>cameras\<close> equal to \<open>[0, 1]\<close> and a
  two-element \<open>resolution\<close>, the server sends exactly one ACK,
  \<open>{'status': 'ACK', 'timestamp': ts}\<close> with \<open>ts\<close> the payload's own timestamp value,
  and \<open>handle_handshake\<close> returns \<open>None\<close>. This is so in particular when the client's
  two writes arrive as written (\<open>recv_handshake_payload_whole\<close>), and when they arrive
  joined in one piece.
\<close>

theorem valid_handshake_acked_with_timestamp:
  assumes "recv_handshake_payload client = Some payload_bytes"
    and "loads payload_bytes = Some (PDict kvs)"
    and "map_of kvs ''resolution'' = Some (PList res)" and "length res = 2"
    and "map_of kvs ''fps'' = Some fps"
    and "map_of kvs ''cameras'' = Some (PList cams)" and "list_all2 py_eq_int cams [0, 1]"
    and "map_of kvs ''timestamp'' = Some ts"
  shows "handle_handshake loads client =
           \<lparr>returned = PNone,
            sent = [PDict [(''status'', PStr ''ACK''), (''timestamp'', ts)]],
            logged = SentAck\<rparr>"
proof -
  have v: "validate_payload (PDict kvs) = Inr True"
    unfolding validate_payload_dict using assms(3-8) by blast
  show ?thesis
    by (simp add: handle_handshake_def assms(1,2) v assms(8))
qed

lemma config_writes: "send_handshake_writes config_body = Inr [[0, 0, 0, 74], config_body]"
  by (simp add: send_handshake_writes_def to_bytes4_def config_body_def ascii_def)

lemma recv_config_joined:
  "recv_handshake_payload [[0, 0, 0, 74] @ config_body] = Some config_body"
  by (simp add: recv_handshake_payload_def from_bytes_big_def config_body_def ascii_def)

theorem valid_handshake_acked_with_timestamp_witness:
  "handle_handshake (map_of [(config_body, config_payload)]) [[0, 0, 0, 74], config_body] =
     \<lparr>returned = PNone,
      sent = [PDict [(''status'', PStr ''ACK''), (''timestamp'', PFloat 1.5)]],
      logged = SentAck\<rparr> \<and>
   handle_handshake (map_of [(config_body, config_payload)]) [[0, 0, 0, 74] @ config_body] =
     \<lparr>returned = PNone,
      sent = [PDict [(''status'', PStr ''ACK''), (''timestamp'', PFloat 1.5)]],
      logged = SentAck\<rparr>"
  using valid_handshake_acked_with_timestamp
    [OF recv_handshake_payload_whole [OF config_writes, of "[]"],
       of "map_of [(config_body, config_payload)]"
       "[(''resolution'', PList [PInt 320, PInt 240]), (''fps'', PInt 15),
         (''cameras'', PList [PInt 0, PInt 1]), (''timestamp'', PFloat 1.5)]"
       "[PInt 320, PInt 240]" "PInt 15" "[PInt 0, PInt 1]" "PFloat 1.5"]
    valid_handshake_acked_with_timestamp
    [OF recv_config_joined, of "map_of [(config_body, config_payload)]"
       "[(''resolution'', PList [PInt 320, PInt 240]), (''fps'', PInt 15),
         (''cameras'', PList [PInt 0, PInt 1]), (''timestamp'', PFloat 1.5)]"
       "[PInt 320, PInt 240]" "PInt 15" "[PInt 0, PInt 1]" "PFloat 1.5"]
  by (simp add: config_payload_def del: append_Cons)

text \<open>
  C4, as stated, fails: for the message pi_handshake.py sends, delivered whole and valid,
  \<open>handle_handshake\<close> returns \<open>None\<close>, not the config.
\<close>

theorem handshake_returns_no_config:
  "send_handshake_writes config_body = Inr [[0, 0, 0, 74], config_body] \<and>
   validate_payload config_payload = Inr True \<and>
   returned (handle_handshake (map_of [(config_body, config_payload)])
               [[0, 0, 0, 74], config_body]) = PNone \<and>
   returned (handle_handshake (map_of [(config_body, config_payload)])
               [[0, 0, 0, 74], config_body]) \<noteq> config_payload"
proof -
  have v: "validate_payload config_payload = Inr True"
    by (simp add: config_payload_def validate_payload_def required_keys_def EXPECTED_CAMERAS_def)
  have t: "py_getitem config_payload ''timestamp'' = Inr (PFloat 1.5)"
    by (simp add: config_payload_def)
  have "returned (handle_handshake (map_of [(config_body, config_payload)])
               [[0, 0, 0, 74], config_body]) = PNone"
    by (simp add: handle_handshake_def recv_config_whole v t)
  moreover have "PNone \<noteq> config_payload" by (simp add: config_payload_def)
  ultimately show ?thesis using v config_writes by simp
qed

text \<open>
  C9. The body of a handshake message is read with a single \<open>recv(length)\<close>. When the
  74 bytes of the body arrive in two pieces of 40 and 34 bytes, the server takes the
  first 40 bytes for the whole body and hands them to \<open>json.loads\<close>, which fails on
  them; no ACK is sent although the message is valid.
\<close>

theorem handshake_parses_truncated_body:
  "send_handshake_writes config_body = Inr [[0, 0, 0, 74], config_body] \<and>
   recv_handshake_payload [[0, 0, 0, 74], take 40 config_body, drop 40 config_body] =
     Some (take 40 config_body) \<and>
   length (take 40 config_body) = 40 \<and> length config_body = 74 \<and>
   handle_handshake (map_of [(config_body, config_payload)])
     [[0, 0, 0, 74], take 40 config_body, drop 40 config_body] =
     \<lparr>returned = PNone, sent = [], logged = HandshakeError\<rparr>"
proof -
  have r: "recv_handshake_payload [[0, 0, 0, 74], take 40 config_body, drop 40 config_body] =
     Some (take 40 config_body)"
    by (simp add: recv_handshake_payload_def from_bytes_big_def config_body_def ascii_def)
  have n: "take 40 config_body \<noteq> config_body"
    by (simp add: config_body_def ascii_def)
  have l: "length (take 40 config_body) = 40" "length config_body = 74"
    by (simp_all add: config_body_def ascii_def)
  have "handle_handshake (map_of [(config_body, config_payload)])
     [[0, 0, 0, 74], take 40 config_body, drop 40 config_body] =
     \<lparr>returned = PNone, sent = [], logged = HandshakeError\<rparr>"
    using n by (simp add: handle_handshake_def r)
  then show ?thesis using r l config_writes by simp
qed

section \<open>Properties of the frame cache\<close>

lemma latest_depth_depth_update:
  "latest_depth (depth_update stereo annotate st cam_id frame) = latest_depth st"
  by (simp add: depth_update_def Let_def)

lemma latest_depth_depth_main_loop:
  "latest_depth (fst (depth_main_loop imdecode stereo annotate n client st)) = latest_depth st"
proof (induction n arbitrary: client st)
  case 0
  show ?case by simp
next
  case (Suc n)
  show ?case
  proof (cases "receive_frame imdecode client")
    case (Pair r client')
    then show ?thesis
      by (cases r) (auto simp add: Suc.IH latest_depth_depth_update)
  qed
qed

text \<open>
  C10. In the stereo depth server the module-level \<open>latest_depth\<close> is never updated by
  the ingestion loop: from the initial state, after any number of rounds of the loop on
  any stream, it is still \<open>None\<close>, and the frame the web thread picks for the depth
  channel is \<open>None\<close>.
\<close>

theorem depth_channel_always_none:
  "latest_depth (fst (depth_main_loop imdecode stereo annotate n client depth_init)) = None \<and>
   stream_frame py_int (fst (depth_main_loop imdecode stereo annotate n client depth_init))
     ''depth'' = Inr None"
  by (simp add: stream_frame_def latest_depth_depth_main_loop depth_init_def)

text \<open>
  C2. The publish and read law fails for the derived channels. In the depth server,
  once a frame of camera 0 and a frame of camera 1 have been received, the loop has
  computed the depth map and stored it (in the variable local to \<open>main\<close>), yet the
  depth channel still reads \<open>None\<close>. In the fiducial server, after a frame of the
  expected camera the loop has stored the output frame and the edge map, yet the
  \<open>frame\<close> and \<open>edges\<close> channels still read \<open>None\<close>.
\<close>

theorem published_depth_and_frame_not_read:
  "main_latest_depth (depth_update stereo annotate (depth_update stereo annotate depth_init 0 f0) 1 f1)
     = Some (stereo f0 f1) \<and>
   stream_frame py_int
     (depth_update stereo annotate (depth_update stereo annotate depth_init 0 f0) 1 f1) ''depth''
     = Inr None \<and>
   main_latest_edges (cal_update cv cal_init 0 frame) = Some (canny_edges cv frame) \<and>
   cal_stream_frame (cal_update cv cal_init 0 frame) ''edges'' = None \<and>
   main_latest_frame (cal_update cv cal_init 0 frame) \<noteq> None \<and>
   cal_stream_frame (cal_update cv cal_init 0 frame) ''frame'' = None"
  by (simp add: depth_update_def depth_init_def compute_depth_map_def stream_frame_def Let_def
      cal_update_def cal_init_def cal_stream_frame_def detect_framing_square_def
      EXPECTED_CAMERA_def split: prod.split)

section \<open>Properties of the depth estimate\<close>

lemma cvRound_0: "cvRound 0 = 0" and cvRound_255: "cvRound 255 = 255"
  by (simp_all add: cvRound_def)

lemma nonzero_scale: "x \<noteq> 0 \<Longrightarrow> x * (255 / x) = (255 :: real)"
  by simp

lemma normalize_two_levels:
  assumes s: "set (concat src) = {lo, hi}" and lt: "lo < hi"
  shows "normalize_minmax src = map (map (\<lambda>p. if p = hi then 255 else 0)) src"
proof -
  from s obtain v vs where c: "concat src = v # vs" by (cases "concat src") auto
  have smin: "fold min vs v = lo"
    using s lt unfolding c Min.set_eq_fold [symmetric] by simp
  have smax: "fold max vs v = hi"
    using s lt unfolding c Max.set_eq_fold [symmetric] by simp
  have px: "saturate_u8 (cvRound (of_int p * (255 / of_int (hi - lo)) +
              (0 - of_int lo * (255 / of_int (hi - lo))))) = (if p = hi then 255 else 0)"
    if "p \<in> set (concat src)" for p
  proof (cases "p = hi")
    case True
    have d: "(of_int (hi - lo) :: real) \<noteq> 0" using lt by simp
    define sc :: real where "sc = 255 / of_int (hi - lo)"
    have "of_int hi * sc + (0 - of_int lo * sc) = of_int (hi - lo) * sc"
      by (simp add: algebra_simps)
    also have "\<dots> = 255" unfolding sc_def by (rule nonzero_scale [OF d])
    finally have "of_int hi * (255 / of_int (hi - lo)) +
        (0 - of_int lo * (255 / of_int (hi - lo))) = (255 :: real)"
      unfolding sc_def .
    then show ?thesis using True by (simp add: cvRound_255 saturate_u8_def)
  next
    case False
    with that s have "p = lo" by auto
    then show ?thesis using False by (simp add: cvRound_0 saturate_u8_def)
  qed
  have "map (map (\<lambda>p. saturate_u8 (cvRound (of_int p * (255 / of_int (hi - lo)) +
              (0 - of_int lo * (255 / of_int (hi - lo))))))) src =
        map (map (\<lambda>p. if p = hi then 255 else 0)) src"
    by (intro map_cong refl px) auto
  then show ?thesis
    using lt by (simp add: normalize_minmax_def c smin smax Let_def)
qed

lemma set_concat_roi: "set (concat (roi depth_map box)) \<subseteq> set (concat depth_map)"
proof -
  obtain x y w h where b: "box = (x, y, w, h)" by (cases box) auto
  show ?thesis
    unfolding b by (auto dest!: in_set_takeD in_set_dropD)
qed

text \<open>
  The same for every disparity map of two levels \<open>lo < hi\<close> (no match, match), whatever
  the shift and whatever the box: the normalisation sends the matched pixels to 255, so
  a depth, when one is computed, is \<open>FOCAL_LENGTH * BASELINE / 255\<close>.
\<close>

lemma box_depth_two_levels:
  assumes "set (concat src) = {lo, hi}" and "lo < hi"
  shows "box_depth_meters (normalize_minmax src) box = None \<or>
         box_depth_meters (normalize_minmax src) box = Some (FOCAL_LENGTH * BASELINE / 255)"
proof -
  let ?m = "normalize_minmax src"
  let ?valid = "filter (\<lambda>v. 0 < v) (concat (roi ?m box))"
  have "set (concat ?m) \<subseteq> {0, 255}"
    unfolding normalize_two_levels [OF assms] by auto
  with set_concat_roi [of ?m box] have "set ?valid \<subseteq> {255}" by auto
  then have "replicate (length ?valid) 255 = ?valid"
    by (intro replicate_length_same) auto
  then have "sum_list ?valid = 255 * int (length ?valid)"
    by (metis mult.commute sum_list_replicate)
  then have avg: "0 < length ?valid \<Longrightarrow>
      (of_int (sum_list ?valid) :: real) / of_nat (length ?valid) = 255"
    by simp
  show ?thesis
  proof (cases "0 < length ?valid")
    case True
    from avg [OF True] True show ?thesis
      by (simp add: box_depth_meters_def Let_def)
  next
    case False
    then show ?thesis by (simp add: box_depth_meters_def Let_def)
  qed
qed

lemma normalize_shift4: "normalize_minmax shift4_disparity = replicate 3 [0, 0, 255, 255, 255, 255]"
  apply (simp add: normalize_minmax_def shift4_disparity_def numeral_3_eq_3 Let_def saturate_u8_def)
  apply (simp add: cvRound_def)
  done

lemma normalize_shift8: "normalize_minmax shift8_disparity = replicate 3 [0, 0, 255, 255, 255, 255]"
  apply (simp add: normalize_minmax_def shift8_disparity_def numeral_3_eq_3 Let_def saturate_u8_def)
  apply (simp add: cvRound_def)
  done

lemma box_depth_display: "box_depth_meters (replicate 3 [0, 0, 255, 255, 255, 255]) (2, 0, 4, 3) = Some (10 / 51)"
  by (simp add: box_depth_meters_def numeral_3_eq_3 FOCAL_LENGTH_def BASELINE_def)

text \<open>
  C5. The depth that is computed for a pair with a uniform shift. \<open>compute_depth_map\<close>
  returns the disparity map normalised for display, and the depth of a box is computed
  from that map. For a shift of four pixels the matched pixels become 255, their mean is
  255, and the depth written to the box is \<open>500 * 0.1 / 255 = 10/51\<close> metres, where
  \<open>focalLength * baseline / d\<close> is 12.5 metres; for a shift of eight pixels the depth is
  again \<open>10/51\<close> metres, where the formula gives 6.25 metres.
\<close>

theorem depth_from_display_map:
  "compute_depth_map (stereo_display block_match) (Some left_frame) (Some right_frame) =
     Some (normalize_minmax (block_match left_frame right_frame)) \<and>
   normalize_minmax shift4_disparity = replicate 3 [0, 0, 255, 255, 255, 255] \<and>
   object_depths one_object_cv () (normalize_minmax shift4_disparity) = [((2, 0, 4, 3), 10 / 51)] \<and>
   FOCAL_LENGTH * BASELINE / 4 = 25 / 2 \<and>
   object_depths one_object_cv () (normalize_minmax shift8_disparity) = [((2, 0, 4, 3), 10 / 51)] \<and>
   FOCAL_LENGTH * BASELINE / 8 = 25 / 4"
  by (simp add: normalize_shift4 normalize_shift8 compute_depth_map_def stereo_display_def
      object_depths_def one_object_cv_def box_depth_display)
    (simp add: FOCAL_LENGTH_def BASELINE_def)

section \<open>Properties of the fiducial distance estimator\<close>

lemma snd_scan_contours:
  "snd (scan_contours cv (min_area cv frame) out cs) =
     (case List.find (is_large_quad cv frame) cs of
        None \<Rightarrow> None
      | Some c \<Rightarrow>
          (case solvePnP cv (approxPolyDP cv c) of
             (ret, tvec) \<Rightarrow> if ret then Some (tvec_z tvec) else None))"
  by (induction cs) (auto simp add: is_large_quad_def is_large_def split: prod.splits)

text \<open>
  C6, as the code has it. For every frame the estimator goes through the contours in
  order up to the first one that both exceeds 10% of the frame area and has a polygon
  approximation of exactly four vertices; only this contour reaches the pose solver. The
  reported distance is the Z component of the translation vector when the solver
  succeeds, and there is no detection when the solver fails or when no contour passes
  both tests. The edge map of the frame is returned in every case.
\<close>

theorem distance_from_first_large_quadrilateral:
  "\<exists>output_frame. detect_framing_square cv (Some frame) =
     Some (output_frame, canny_edges cv frame,
       (case List.find (is_large_quad cv frame) (square_contours cv frame) of
          None \<Rightarrow> None
        | Some c \<Rightarrow>
            (case solvePnP cv (approxPolyDP cv c) of
               (ret, tvec) \<Rightarrow> if ret then Some (tvec_z tvec) else None)))"
proof -
  obtain out d where sc:
    "scan_contours cv (min_area cv frame) frame (square_contours cv frame) = (out, d)"
    by (cases "scan_contours cv (min_area cv frame) frame (square_contours cv frame)")
  from snd_scan_contours [of cv frame frame "square_contours cv frame"] sc
  have "d = (case List.find (is_large_quad cv frame) (square_contours cv frame) of
          None \<Rightarrow> None
        | Some c \<Rightarrow>
            (case solvePnP cv (approxPolyDP cv c) of
               (ret, tvec) \<Rightarrow> if ret then Some (tvec_z tvec) else None))"
    by simp
  with sc show ?thesis by (simp add: detect_framing_square_def)
qed

text \<open>
  C6, as stated, fails: with a large pentagon followed by a large quadrilateral, the
  first contour whose area exceeds 10% of the frame area is the pentagon, whose polygon
  has five vertices, and yet a distance is reported (that of the quadrilateral).
\<close>

theorem distance_from_second_large_contour:
  "detect_framing_square two_contours_cv (Some ()) = Some ((), (), Some 2) \<and>
   List.find (is_large two_contours_cv ()) (square_contours two_contours_cv ()) = Some pentagon \<and>
   length (approxPolyDP two_contours_cv pentagon) = 5"
  by (simp add: detect_framing_square_def two_contours_cv_def min_area_def is_large_def
      pentagon_def quadrilateral_def)

end
